theory Spec2Isabelle
  imports Complex_Main
begin

section \<open>EM122 reader: the data the code works on\<close>

text \<open>
  The development follows \<^verbatim>\<open>src/read_em_122.py\<close>, function \<^verbatim>\<open>read_em122_wgs84\<close>.
  Python floats are carried as \<^typ>\<open>real\<close>; every floating-point operation the source
  delegates to a library (\<^verbatim>\<open>np.arctan2\<close>, \<^verbatim>\<open>np.degrees\<close>, the geodetic primitive, the
  time-series interpolant, the timestamp conversion) is a parameter of the model, so the
  theorems about the code apply no law of real arithmetic to a value the source computes
  in floating point.
  Printing and the progress line (lines 26-48, 128-134, 157-162) only write to the
  terminal and are left out.
\<close>

datatype exn = ValueError | IndexError | DecodeError

text \<open>The decoded XYZ 88 datagram: the attributes the source reads after \<^verbatim>\<open>datagram.read()\<close>.\<close>

record xyz88 =
  recorddate :: int
  time :: real
  heading :: real
  acrosstrackdistance :: "real list"
  alongtrackdistance :: "real list"
  depth :: "real list"
  reflectivity :: "real list"

text \<open>
  \<^verbatim>\<open>readdatagram\<close> returns a type code and a payload; the source looks at the payload only
  when the code is \<^verbatim>\<open>'X'\<close> (line 70). \<open>X dg\<close> is a depth datagram that \<^verbatim>\<open>datagram.read()\<close>
  decodes to \<open>dg\<close>; \<open>Damaged\<close> is a depth datagram whose body cannot be decoded (a record
  cut short or overwritten), so that \<^verbatim>\<open>datagram.read()\<close> at line 71 raises, written
  \<open>DecodeError\<close>; \<open>Other c\<close> is a datagram of any other type code.
\<close>

datatype datagram = X xyz88 | Damaged | Other char

text \<open>
  A file on disk, as the decoder presents it: the list \<^verbatim>\<open>loadnavigation\<close> returns
  (\<^verbatim>\<open>[timestamp, lat, lon]\<close> per fix) and the datagrams in file order.
\<close>

record allfile =
  navigation :: "(real \<times> real \<times> real) list"
  datagrams :: "datagram list"

text \<open>The reader handle: the file it was opened on, the datagrams not yet read, how many
  times \<^verbatim>\<open>readdatagram\<close> has been called on it, and whether \<^verbatim>\<open>close\<close> has been called.\<close>

record allreader =
  contents :: allfile
  remaining :: "datagram list"
  reads :: nat
  closed :: bool

definition allreader :: "allfile \<Rightarrow> allreader" where
  "allreader f = \<lparr>contents = f, remaining = datagrams f, reads = 0, closed = False\<rparr>"

text \<open>\<^verbatim>\<open>loadnavigation\<close> reads through the whole file; the source rewinds afterwards (line 51).
  It is taken to decode the position datagrams only and to return: the list it returns is
  the \<open>navigation\<close> field of the file.\<close>

definition loadnavigation :: "allreader \<Rightarrow> (real \<times> real \<times> real) list \<times> allreader" where
  "loadnavigation r = (navigation (contents r), r\<lparr>remaining := []\<rparr>)"

definition rewind :: "allreader \<Rightarrow> allreader" where
  "rewind r = r\<lparr>remaining := datagrams (contents r)\<rparr>"

definition moredata :: "allreader \<Rightarrow> bool" where
  "moredata r = (remaining r \<noteq> [])"

definition readdatagram :: "allreader \<Rightarrow> datagram \<times> allreader" where
  "readdatagram r = (hd (remaining r), r\<lparr>remaining := tl (remaining r), reads := reads r + 1\<rparr>)"

definition close :: "allreader \<Rightarrow> allreader" where
  "close r = r\<lparr>closed := True\<rparr>"

text \<open>
  The library functions the source calls. \<open>getValueAt times values t\<close> stands for
  \<^verbatim>\<open>timeseries.ctimeSeries(times, values).getValueAt(t)\<close>, with \<open>None\<close> for Python's
  \<^verbatim>\<open>None\<close>; \<open>to_timestamp d t\<close> for \<^verbatim>\<open>pyall.to_timestamp(r.to_datetime(d, t))\<close>; the
  geodetic primitive returns the pair \<^verbatim>\<open>(lon, lat)\<close>.
\<close>

record libs =
  getValueAt :: "real list \<Rightarrow> real list \<Rightarrow> real \<Rightarrow> real option"
  to_timestamp :: "int \<Rightarrow> real \<Rightarrow> real"
  calculateGeographicalPositionFromBearingDxDy ::
    "real \<Rightarrow> real \<Rightarrow> real \<Rightarrow> real \<Rightarrow> real \<Rightarrow> real \<times> real"
  arctan2 :: "real \<Rightarrow> real \<Rightarrow> real"
  degrees :: "real \<Rightarrow> real"

text \<open>The two interpolants of lines 45-46: column 0 of \<^verbatim>\<open>nav_arr\<close> is the timestamp, column 1
  the latitude, column 2 the longitude.\<close>

definition interp_lat :: "libs \<Rightarrow> (real \<times> real \<times> real) list \<Rightarrow> real \<Rightarrow> real option" where
  "interp_lat L nav = getValueAt L (map fst nav) (map (fst \<circ> snd) nav)"

definition interp_lon :: "libs \<Rightarrow> (real \<times> real \<times> real) list \<Rightarrow> real \<Rightarrow> real option" where
  "interp_lon L nav = getValueAt L (map fst nav) (map (snd \<circ> snd) nav)"

section \<open>numpy on one-dimensional arrays\<close>

text \<open>
  An elementwise binary function on two 1-D arrays: equal shapes pair up, a shape of
  \<open>(1,)\<close> is broadcast over the other operand, anything else raises \<^verbatim>\<open>ValueError\<close>.
\<close>

definition broadcast2 :: "('a \<Rightarrow> 'a \<Rightarrow> 'b) \<Rightarrow> 'a list \<Rightarrow> 'a list \<Rightarrow> exn + 'b list" where
  "broadcast2 f xs ys =
     (if length xs = length ys then Inr (map2 f xs ys)
      else if length xs = 1 then Inr (map (f (hd xs)) ys)
      else if length ys = 1 then Inr (map (\<lambda>x. f x (hd ys)) xs)
      else Inl ValueError)"

text \<open>\<^verbatim>\<open>np.concatenate\<close> of a list of 1-D arrays; the empty list raises
  \<^verbatim>\<open>ValueError: need at least one array to concatenate\<close>.\<close>

definition concatenate :: "'a list list \<Rightarrow> exn + 'a list" where
  "concatenate xss = (if xss = [] then Inl ValueError else Inr (concat xss))"

fun cumsum_from :: "int \<Rightarrow> int list \<Rightarrow> int list" where
  "cumsum_from s [] = []"
| "cumsum_from s (x # xs) = (s + x) # cumsum_from (s + x) xs"

definition cumsum :: "int list \<Rightarrow> int list" where
  "cumsum xs = cumsum_from 0 xs"

section \<open>The accumulators and the returned dictionary\<close>

record acc =
  list_lat :: "real list list"
  list_lon :: "real list list"
  list_z :: "real list list"
  list_bs :: "real list list"
  list_ang :: "real list list"
  list_beam_counts :: "int list"
  list_ping_times :: "real list"
  ping_count :: int

definition init_acc :: acc where
  "init_acc = \<lparr>list_lat = [], list_lon = [], list_z = [], list_bs = [], list_ang = [],
     list_beam_counts = [], list_ping_times = [], ping_count = 0\<rparr>"

text \<open>The returned dictionary, one field per key (lines 165-174).\<close>

record dataset =
  lat :: "real list"
  lon :: "real list"
  z :: "real list"
  bs :: "real list"
  ang :: "real list"
  ping_counts :: "int list"
  ping_starts :: "int list"
  ping_times :: "real list"

text \<open>
  How a call ends. The source returns \<^verbatim>\<open>None\<close> in three places, told apart by the
  message printed before: the path is not a file (lines 20-22), the navigation list is
  empty (lines 35-38), no XYZ datagram was counted (lines 138-140); they carry the names
  the specification gives these outcomes. \<open>Raised\<close> is an exception leaving the function.
\<close>

datatype failure = FileNotFound | EmptyNavigationError | NoValidDataError

datatype outcome = NoDataset failure | Dataset dataset | Raised exn

section \<open>The ping processor (lines 70-126)\<close>

text \<open>The per-beam loop of lines 104-115, over the indices \<^verbatim>\<open>range(len(p_z))\<close>; an index
  past the end of \<^verbatim>\<open>p_across\<close> or \<^verbatim>\<open>p_along\<close> raises \<^verbatim>\<open>IndexError\<close>.\<close>

fun beam_loop :: "libs \<Rightarrow> real \<Rightarrow> real \<Rightarrow> real \<Rightarrow> real list \<Rightarrow> real list \<Rightarrow> nat list
    \<Rightarrow> real list \<times> real list \<Rightarrow> exn + real list \<times> real list" where
  "beam_loop L ref_lon ref_lat hdg p_across p_along [] cur = Inr cur"
| "beam_loop L ref_lon ref_lat hdg p_across p_along (i # is) (current_ping_lats, current_ping_lons) =
     (if \<not> i < length p_across then Inl IndexError
      else if \<not> i < length p_along then Inl IndexError
      else
        let (b_lon, b_lat) =
              calculateGeographicalPositionFromBearingDxDy L ref_lon ref_lat hdg
                (p_across ! i) (p_along ! i)
        in beam_loop L ref_lon ref_lat hdg p_across p_along is
             (current_ping_lats @ [b_lat], current_ping_lons @ [b_lon]))"

text \<open>
  The body of the \<^verbatim>\<open>if typeofdatagram == 'X'\<close> branch. The ping counter is incremented
  first (line 72); a missing reference position leaves the branch by \<^verbatim>\<open>continue\<close>
  (lines 83-84) with nothing else changed.
\<close>

definition process_ping ::
    "libs \<Rightarrow> (real \<Rightarrow> real option) \<Rightarrow> (real \<Rightarrow> real option) \<Rightarrow> xyz88 \<Rightarrow> acc \<Rightarrow> exn + acc" where
  "process_ping L ts_lat ts_lon dg a0 =
     (let a = a0\<lparr>ping_count := ping_count a0 + 1\<rparr>;
          ts = to_timestamp L (recorddate dg) (time dg)
      in case (ts_lat ts, ts_lon ts) of
           (None, _) \<Rightarrow> Inr a
         | (_, None) \<Rightarrow> Inr a
         | (Some ref_lat, Some ref_lon) \<Rightarrow>
            (let p_across = acrosstrackdistance dg;
                 p_along = alongtrackdistance dg;
                 p_z = depth dg;
                 p_bs = reflectivity dg
             in case broadcast2 (arctan2 L) p_across p_z of
                  Inl e \<Rightarrow> Inl e
                | Inr rad \<Rightarrow>
                   (let p_ang = map (degrees L) rad
                    in case beam_loop L ref_lon ref_lat (heading dg) p_across p_along
                              [0 ..< length p_z] ([], []) of
                         Inl e \<Rightarrow> Inl e
                       | Inr (current_ping_lats, current_ping_lons) \<Rightarrow>
                           Inr (a\<lparr>list_lat := list_lat a @ [current_ping_lats],
                                  list_lon := list_lon a @ [current_ping_lons],
                                  list_z := list_z a @ [p_z],
                                  list_bs := list_bs a @ [p_bs],
                                  list_ang := list_ang a @ [p_ang],
                                  list_beam_counts := list_beam_counts a @ [int (length p_z)],
                                  list_ping_times := list_ping_times a @ [ts]\<rparr>))))"

section \<open>The streaming loop (lines 65-126)\<close>

text \<open>\<^verbatim>\<open>while r.moredata()\<close>: the reader and the accumulators are threaded through; an
  exception leaves the loop with the reader as it was when the exception was raised.
  The exceptions represented are the decoder's on a damaged depth record (line 71) and
  numpy's shape and index errors (lines 98, 111, 112); the timestamp conversion, the
  interpolants and the geodetic call are taken to return.\<close>

function stream_loop ::
    "libs \<Rightarrow> (real \<Rightarrow> real option) \<Rightarrow> (real \<Rightarrow> real option) \<Rightarrow> allreader \<Rightarrow> acc
       \<Rightarrow> (exn + acc) \<times> allreader" where
  "stream_loop L ts_lat ts_lon r a =
     (if moredata r then
        (case readdatagram r of
           (X dg, r') \<Rightarrow>
             (case process_ping L ts_lat ts_lon dg a of
                Inl e \<Rightarrow> (Inl e, r')
              | Inr a' \<Rightarrow> stream_loop L ts_lat ts_lon r' a')
         | (Damaged, r') \<Rightarrow> (Inl DecodeError, r')
         | (Other c, r') \<Rightarrow> stream_loop L ts_lat ts_lon r' a)
      else (Inr a, r))"
  by pat_completeness auto
termination
  by (relation "measure (\<lambda>(L, ts_lat, ts_lon, r, a). length (remaining r))")
     (auto simp: moredata_def readdatagram_def)

declare stream_loop.simps [simp del]

section \<open>Flattening and indexing (lines 144-155)\<close>

definition flatten :: "acc \<Rightarrow> exn + dataset" where
  "flatten a =
     (case concatenate (list_lat a) of Inl e \<Rightarrow> Inl e | Inr final_lat \<Rightarrow>
     (case concatenate (list_lon a) of Inl e \<Rightarrow> Inl e | Inr final_lon \<Rightarrow>
     (case concatenate (list_z a) of Inl e \<Rightarrow> Inl e | Inr final_z \<Rightarrow>
     (case concatenate (list_bs a) of Inl e \<Rightarrow> Inl e | Inr final_bs \<Rightarrow>
     (case concatenate (list_ang a) of Inl e \<Rightarrow> Inl e | Inr final_ang \<Rightarrow>
        (let final_beam_counts = list_beam_counts a;
             final_ping_times = list_ping_times a;
             final_ping_starts = [0] @ butlast (cumsum final_beam_counts)
         in Inr \<lparr>lat = final_lat, lon = final_lon, z = final_z, bs = final_bs,
                 ang = final_ang, ping_counts = final_beam_counts,
                 ping_starts = final_ping_starts, ping_times = final_ping_times\<rparr>))))))"

section \<open>The whole function\<close>

text \<open>
  \<open>fs\<close> is the file system: \<open>fs filename = None\<close> when \<^verbatim>\<open>os.path.isfile\<close> is false.
  The second component is the reader handle as the call leaves it, \<open>None\<close> when no reader
  was opened.
\<close>

definition read_em122_wgs84 ::
    "libs \<Rightarrow> (string \<Rightarrow> allfile option) \<Rightarrow> string \<Rightarrow> outcome \<times> allreader option" where
  "read_em122_wgs84 L fs filename =
     (case fs filename of
        None \<Rightarrow> (NoDataset FileNotFound, None)
      | Some f \<Rightarrow>
         (let r = allreader f;
              (nav, r) = loadnavigation r
          in if nav = [] then (NoDataset EmptyNavigationError, Some (close r))
             else
               let ts_lat = interp_lat L nav;
                   ts_lon = interp_lon L nav;
                   r = rewind r
               in case stream_loop L ts_lat ts_lon r init_acc of
                    (Inl e, r) \<Rightarrow> (Raised e, Some r)
                  | (Inr a, r) \<Rightarrow>
                     (let r = close r
                      in if ping_count a = 0 then (NoDataset NoValidDataError, Some r)
                         else case flatten a of
                                Inl e \<Rightarrow> (Raised e, Some r)
                              | Inr d \<Rightarrow> (Dataset d, Some r))))"

section \<open>Vocabulary for the statements\<close>

text \<open>The timestamp of a ping (lines 75-76) and the test of line 83.\<close>

definition ping_ts :: "libs \<Rightarrow> xyz88 \<Rightarrow> real" where
  "ping_ts L dg = to_timestamp L (recorddate dg) (time dg)"

definition skipped ::
    "libs \<Rightarrow> (real \<Rightarrow> real option) \<Rightarrow> (real \<Rightarrow> real option) \<Rightarrow> xyz88 \<Rightarrow> bool" where
  "skipped L ts_lat ts_lon dg =
     (ts_lat (ping_ts L dg) = None \<or> ts_lon (ping_ts L dg) = None)"

text \<open>The decoded depth datagrams of a stream, in file order, and those of them that pass
  line 83.\<close>

fun xpings :: "datagram list \<Rightarrow> xyz88 list" where
  "xpings [] = []"
| "xpings (X dg # ds) = dg # xpings ds"
| "xpings (Damaged # ds) = xpings ds"
| "xpings (Other c # ds) = xpings ds"

definition kept ::
    "libs \<Rightarrow> (real \<Rightarrow> real option) \<Rightarrow> (real \<Rightarrow> real option) \<Rightarrow> datagram list \<Rightarrow> xyz88 list" where
  "kept L ts_lat ts_lon ds = filter (\<lambda>dg. \<not> skipped L ts_lat ts_lon dg) (xpings ds)"

definition processed :: "libs \<Rightarrow> allfile \<Rightarrow> xyz88 list" where
  "processed L f =
     kept L (interp_lat L (navigation f)) (interp_lon L (navigation f)) (datagrams f)"

text \<open>The call of lines 107-113 for beam \<open>i\<close> of a ping, at the interpolated reference
  position.\<close>

definition beam_pos ::
    "libs \<Rightarrow> (real \<Rightarrow> real option) \<Rightarrow> (real \<Rightarrow> real option) \<Rightarrow> xyz88 \<Rightarrow> nat \<Rightarrow> real \<times> real" where
  "beam_pos L ts_lat ts_lon dg i =
     calculateGeographicalPositionFromBearingDxDy L
       (the (ts_lon (ping_ts L dg))) (the (ts_lat (ping_ts L dg)))
       (heading dg) (acrosstrackdistance dg ! i) (alongtrackdistance dg ! i)"

text \<open>The per-beam arrays of one datagram have the same length (the PingRecord of the
  data model).\<close>

definition equal_lengths :: "xyz88 \<Rightarrow> bool" where
  "equal_lengths dg =
     (length (acrosstrackdistance dg) = length (depth dg)
      \<and> length (alongtrackdistance dg) = length (depth dg)
      \<and> length (reflectivity dg) = length (depth dg))"

text \<open>A ping that passes line 83 raises nothing exactly when the two operands of
  \<^verbatim>\<open>np.arctan2\<close> broadcast and no beam index runs past \<^verbatim>\<open>p_across\<close> or \<^verbatim>\<open>p_along\<close>.\<close>

definition ping_ok :: "libs \<Rightarrow> xyz88 \<Rightarrow> bool" where
  "ping_ok L dg =
     (isl (broadcast2 (arctan2 L) (acrosstrackdistance dg) (depth dg)) = False
      \<and> length (depth dg) \<le> length (acrosstrackdistance dg)
      \<and> length (depth dg) \<le> length (alongtrackdistance dg))"

definition angs_of :: "libs \<Rightarrow> xyz88 \<Rightarrow> real list" where
  "angs_of L dg =
     map (degrees L) (projr (broadcast2 (arctan2 L) (acrosstrackdistance dg) (depth dg)))"

text \<open>The two updates the branch makes to the accumulators: the counter (line 72) and the
  seven appends (lines 118-126).\<close>

definition bump :: "acc \<Rightarrow> acc" where
  "bump a = a\<lparr>ping_count := ping_count a + 1\<rparr>"

definition push ::
    "libs \<Rightarrow> (real \<Rightarrow> real option) \<Rightarrow> (real \<Rightarrow> real option) \<Rightarrow> xyz88 \<Rightarrow> acc \<Rightarrow> acc" where
  "push L ts_lat ts_lon dg a =
     a\<lparr>list_lat := list_lat a @
          [map (\<lambda>i. snd (beam_pos L ts_lat ts_lon dg i)) [0 ..< length (depth dg)]],
       list_lon := list_lon a @
          [map (\<lambda>i. fst (beam_pos L ts_lat ts_lon dg i)) [0 ..< length (depth dg)]],
       list_z := list_z a @ [depth dg],
       list_bs := list_bs a @ [reflectivity dg],
       list_ang := list_ang a @ [angs_of L dg],
       list_beam_counts := list_beam_counts a @ [int (length (depth dg))],
       list_ping_times := list_ping_times a @ [ping_ts L dg]\<rparr>"

fun collect ::
    "libs \<Rightarrow> (real \<Rightarrow> real option) \<Rightarrow> (real \<Rightarrow> real option) \<Rightarrow> datagram list \<Rightarrow> acc \<Rightarrow> acc" where
  "collect L ts_lat ts_lon [] a = a"
| "collect L ts_lat ts_lon (X dg # ds) a =
     collect L ts_lat ts_lon ds
       (if skipped L ts_lat ts_lon dg then bump a else push L ts_lat ts_lon dg (bump a))"
| "collect L ts_lat ts_lon (Damaged # ds) a = collect L ts_lat ts_lon ds a"
| "collect L ts_lat ts_lon (Other c # ds) a = collect L ts_lat ts_lon ds a"

text \<open>The reader as the streaming loop finds it (lines 25, 33, 51), and whether the loop
  leaves by an exception.\<close>

definition rewound :: "allfile \<Rightarrow> allreader" where
  "rewound f = rewind (snd (loadnavigation (allreader f)))"


text \<open>The five values of one beam (lines 92-115) and the five flat arrays read at one
  index, both in the order latitude, longitude, depth, backscatter, angle.\<close>

definition beam_values ::
    "libs \<Rightarrow> (real \<Rightarrow> real option) \<Rightarrow> (real \<Rightarrow> real option) \<Rightarrow> xyz88 \<Rightarrow> nat
       \<Rightarrow> real \<times> real \<times> real \<times> real \<times> real" where
  "beam_values L ts_lat ts_lon dg i =
     (snd (beam_pos L ts_lat ts_lon dg i), fst (beam_pos L ts_lat ts_lon dg i),
      depth dg ! i, reflectivity dg ! i,
      degrees L (arctan2 L (acrosstrackdistance dg ! i) (depth dg ! i)))"

definition flat_at :: "dataset \<Rightarrow> nat \<Rightarrow> real \<times> real \<times> real \<times> real \<times> real" where
  "flat_at d j = (lat d ! j, lon d ! j, z d ! j, bs d ! j, ang d ! j)"

text \<open>The accumulators without the ping counter, and the result of the loop read that way:
  what the loop hands to the flattening step, or the exception it raised.\<close>

definition lists_of :: "acc \<Rightarrow> acc" where
  "lists_of a = a\<lparr>ping_count := 0\<rparr>"

definition loop_output :: "exn + acc \<Rightarrow> exn + acc" where
  "loop_output res = (case res of Inl e \<Rightarrow> Inl e | Inr a \<Rightarrow> Inr (lists_of a))"

section \<open>An instance of the libraries, and sample files\<close>

text \<open>
  Modelled from the spec: the time-series collaborator (\<^verbatim>\<open>timeseries.ctimeSeries\<close>), whose
  code is not in the repository. Over fixes sorted by timestamp it gives no value outside
  the first and last timestamp, the stored value at a fix, and the linear interpolation
  between the two bracketing fixes otherwise. The theorems below hold for every
  \<open>libs\<close>; this instance only serves to run the model on sample files.
\<close>

fun interpolate :: "(real \<times> real) list \<Rightarrow> real \<Rightarrow> real option" where
  "interpolate [] t = None"
| "interpolate [(t0, v0)] t = (if t = t0 then Some v0 else None)"
| "interpolate ((t0, v0) # (t1, v1) # fixes) t =
     (if t < t0 then None
      else if t = t0 then Some v0
      else if t \<le> t1 then Some (v0 + (v1 - v0) * (t - t0) / (t1 - t0))
      else interpolate ((t1, v1) # fixes) t)"

text \<open>The angle functions over the reals, and stand-ins for the two conversions whose
  formulas lie outside the repository: the record date counted in days, and a flat grid
  on which the offsets are added to the reference position.\<close>

definition atan2 :: "real \<Rightarrow> real \<Rightarrow> real" where
  "atan2 y x =
     (if 0 < x then arctan (y / x)
      else if x < 0 \<and> 0 \<le> y then arctan (y / x) + pi
      else if x < 0 then arctan (y / x) - pi
      else if 0 < y then pi / 2
      else if y < 0 then - pi / 2
      else 0)"

definition deg :: "real \<Rightarrow> real" where
  "deg x = x * 180 / pi"

definition flat_grid :: "real \<Rightarrow> real \<Rightarrow> real \<Rightarrow> real \<Rightarrow> real \<Rightarrow> real \<times> real" where
  "flat_grid origin_lon origin_lat bearing dx dy = (origin_lon + dx, origin_lat + dy)"

definition sample_libs :: libs where
  "sample_libs =
     \<lparr>getValueAt = (\<lambda>times values. interpolate (zip times values)),
      to_timestamp = (\<lambda>d t. real_of_int d * 86400 + t),
      calculateGeographicalPositionFromBearingDxDy = flat_grid,
      arctan2 = atan2,
      degrees = deg\<rparr>"

definition sample_nav :: "(real \<times> real \<times> real) list" where
  "sample_nav = [(0, 10, 120), (10, 12, 122)]"

definition ping_a :: xyz88 where
  "ping_a = \<lparr>recorddate = 0, time = 5, heading = 0,
     acrosstrackdistance = [0, 10], alongtrackdistance = [0, 0],
     depth = [100, 100], reflectivity = [-30, -28]\<rparr>"

definition ping_b :: xyz88 where
  "ping_b = \<lparr>recorddate = 0, time = 10, heading = 0,
     acrosstrackdistance = [-5, 0, 5], alongtrackdistance = [1, 1, 1],
     depth = [90, 91, 92], reflectivity = [-25, -26, -27]\<rparr>"

definition ping_gap :: xyz88 where
  "ping_gap = \<lparr>recorddate = 0, time = 50, heading = 0,
     acrosstrackdistance = [0, 10], alongtrackdistance = [0, 0],
     depth = [100, 100], reflectivity = [-30, -28]\<rparr>"

definition ping_no_beams :: xyz88 where
  "ping_no_beams = \<lparr>recorddate = 0, time = 5, heading = 0,
     acrosstrackdistance = [], alongtrackdistance = [],
     depth = [], reflectivity = []\<rparr>"

definition file_survey :: allfile where
  "file_survey = \<lparr>navigation = sample_nav,
     datagrams = [Other CHR ''I'', X ping_a, Other CHR ''P'', X ping_gap, X ping_b]\<rparr>"

definition file_gap :: allfile where
  "file_gap = \<lparr>navigation = sample_nav, datagrams = [Other CHR ''P'', X ping_gap]\<rparr>"

definition file_no_beams :: allfile where
  "file_no_beams = \<lparr>navigation = sample_nav, datagrams = [X ping_no_beams]\<rparr>"

definition file_damaged :: allfile where
  "file_damaged = \<lparr>navigation = sample_nav, datagrams = [X ping_a, Damaged, X ping_b]\<rparr>"

definition file_no_nav :: allfile where
  "file_no_nav = \<lparr>navigation = [], datagrams = [X ping_a, X ping_b]\<rparr>"

definition disk :: "string \<Rightarrow> allfile option" where
  "disk = map_of
     [(''survey.all'', file_survey), (''gap.all'', file_gap),
      (''no_beams.all'', file_no_beams), (''damaged.all'', file_damaged),
      (''no_nav.all'', file_no_nav)]"

definition survey_dataset :: dataset where
  "survey_dataset =
     \<lparr>lat = [11, 11, 13, 13, 13], lon = [121, 131, 117, 122, 127],
      z = [100, 100, 90, 91, 92], bs = [-30, -28, -25, -26, -27],
      ang = [deg (atan2 0 100), deg (atan2 10 100), deg (atan2 (-5) 90),
             deg (atan2 0 91), deg (atan2 5 92)],
      ping_counts = [2, 3], ping_starts = [0, 2], ping_times = [5, 10]\<rparr>"

section \<open>How one ping and the loop behave\<close>

lemma beam_loop_eq:
  "beam_loop L lo la h pa pl is (lats, lons) =
     (if \<forall>i\<in>set is. i < length pa \<and> i < length pl
      then Inr (lats @ map (\<lambda>i. snd (calculateGeographicalPositionFromBearingDxDy L lo la h (pa ! i) (pl ! i))) is,
                lons @ map (\<lambda>i. fst (calculateGeographicalPositionFromBearingDxDy L lo la h (pa ! i) (pl ! i))) is)
      else Inl IndexError)"
  by (induction "is" arbitrary: lats lons) (auto split: prod.splits)

lemma upt_all_less: "(\<forall>i\<in>set [0 ..< n]. i < a \<and> i < b) \<longleftrightarrow> (n \<le> a \<and> n \<le> b)"
  by (cases n) auto

lemma process_ping_skipped:
  "skipped L tlat tlon dg \<Longrightarrow> process_ping L tlat tlon dg a = Inr (bump a)"
  by (auto simp: process_ping_def skipped_def ping_ts_def bump_def Let_def split: option.splits)

lemma process_ping_ok:
  "\<not> skipped L tlat tlon dg \<Longrightarrow> ping_ok L dg \<Longrightarrow> process_ping L tlat tlon dg a = Inr (push L tlat tlon dg (bump a))"
  by (auto simp: process_ping_def skipped_def ping_ts_def bump_def push_def Let_def ping_ok_def
        beam_loop_eq upt_all_less angs_of_def beam_pos_def split: option.splits sum.splits)

lemma process_ping_bad:
  "\<not> skipped L tlat tlon dg \<Longrightarrow> \<not> ping_ok L dg \<Longrightarrow> isl (process_ping L tlat tlon dg a)"
  by (auto simp: process_ping_def skipped_def ping_ts_def Let_def ping_ok_def
        beam_loop_eq upt_all_less split: option.splits sum.splits)


lemma stream_loop_ok:
  "remaining r = ds \<Longrightarrow> \<forall>dg\<in>set (kept L tlat tlon ds). ping_ok L dg \<Longrightarrow>
     Damaged \<notin> set ds \<Longrightarrow>
     stream_loop L tlat tlon r a = (Inr (collect L tlat tlon ds a), r\<lparr>remaining := [], reads := reads r + length ds\<rparr>)"
proof (induction ds arbitrary: r a)
  case Nil
  then show ?case
    by (subst stream_loop.simps) (simp add: moredata_def)
next
  case (Cons d ds)
  let ?r' = "r\<lparr>remaining := ds, reads := reads r + 1\<rparr>"
  have rd: "moredata r" "readdatagram r = (d, ?r')"
    using Cons.prems(1) by (simp_all add: moredata_def readdatagram_def)
  have rem: "remaining ?r' = ds" by simp
  from Cons.prems(3) have dec: "Damaged \<notin> set ds" by simp
  show ?case
  proof (cases d)
    case Damaged
    with Cons.prems(3) show ?thesis by simp
  next
    case (Other c)
    with Cons.prems(2) have "\<forall>dg\<in>set (kept L tlat tlon ds). ping_ok L dg"
      by (simp add: kept_def)
    from Cons.IH [OF rem this dec] show ?thesis
      by (subst stream_loop.simps) (simp add: rd Other)
  next
    case (X dg)
    from Cons.prems(2) X have rest: "\<forall>dg\<in>set (kept L tlat tlon ds). ping_ok L dg"
      by (simp add: kept_def)
    show ?thesis
    proof (cases "skipped L tlat tlon dg")
      case True
      from Cons.IH [OF rem rest dec] show ?thesis
        by (subst stream_loop.simps) (simp add: rd X True process_ping_skipped)
    next
      case False
      with Cons.prems(2) X have "ping_ok L dg" by (simp add: kept_def)
      with Cons.IH [OF rem rest dec] False show ?thesis
        by (subst stream_loop.simps) (simp add: rd X process_ping_ok)
    qed
  qed
qed

lemma stream_loop_bad:
  "remaining r = ds \<Longrightarrow>
     \<not> (Damaged \<notin> set ds \<and> (\<forall>dg\<in>set (kept L tlat tlon ds). ping_ok L dg)) \<Longrightarrow>
     isl (fst (stream_loop L tlat tlon r a)) \<and> closed (snd (stream_loop L tlat tlon r a)) = closed r"
proof (induction ds arbitrary: r a)
  case Nil
  then show ?case by (simp add: kept_def)
next
  case (Cons d ds)
  let ?r' = "r\<lparr>remaining := ds, reads := reads r + 1\<rparr>"
  have rd: "moredata r" "readdatagram r = (d, ?r')"
    using Cons.prems(1) by (simp_all add: moredata_def readdatagram_def)
  have rem: "remaining ?r' = ds" by simp
  show ?case
  proof (cases d)
    case Damaged
    show ?thesis
      by (subst (1 2) stream_loop.simps) (simp add: rd Damaged)
  next
    case (Other c)
    with Cons.prems(2)
    have "\<not> (Damaged \<notin> set ds \<and> (\<forall>dg\<in>set (kept L tlat tlon ds). ping_ok L dg))"
      by (simp add: kept_def)
    from Cons.IH [OF rem this] show ?thesis
      by (subst (1 2) stream_loop.simps) (simp add: rd Other)
  next
    case (X dg)
    show ?thesis
    proof (cases "skipped L tlat tlon dg")
      case True
      with Cons.prems(2) X
      have "\<not> (Damaged \<notin> set ds \<and> (\<forall>dg\<in>set (kept L tlat tlon ds). ping_ok L dg))"
        by (simp add: kept_def)
      from Cons.IH [OF rem this] show ?thesis
        by (subst (1 2) stream_loop.simps) (simp add: rd X True process_ping_skipped)
    next
      case False
      show ?thesis
      proof (cases "ping_ok L dg")
        case True
        with Cons.prems(2) X False
        have "\<not> (Damaged \<notin> set ds \<and> (\<forall>dg\<in>set (kept L tlat tlon ds). ping_ok L dg))"
          by (simp add: kept_def)
        from Cons.IH [OF rem this] True False show ?thesis
          by (subst (1 2) stream_loop.simps) (simp add: rd X process_ping_ok)
      next
        case bad: False
        from process_ping_bad [OF False bad, of a] obtain e
          where "process_ping L tlat tlon dg a = Inl e" by (cases "process_ping L tlat tlon dg a") auto
        then show ?thesis
          by (subst (1 2) stream_loop.simps) (simp add: rd X)
      qed
    qed
  qed
qed

lemma collect_fields:
  "list_z (collect L tlat tlon ds a) = list_z a @ map depth (kept L tlat tlon ds)"
  "list_bs (collect L tlat tlon ds a) = list_bs a @ map reflectivity (kept L tlat tlon ds)"
  "list_ang (collect L tlat tlon ds a) = list_ang a @ map (angs_of L) (kept L tlat tlon ds)"
  "list_lat (collect L tlat tlon ds a) = list_lat a @
      map (\<lambda>dg. map (\<lambda>i. snd (beam_pos L tlat tlon dg i)) [0 ..< length (depth dg)]) (kept L tlat tlon ds)"
  "list_lon (collect L tlat tlon ds a) = list_lon a @
      map (\<lambda>dg. map (\<lambda>i. fst (beam_pos L tlat tlon dg i)) [0 ..< length (depth dg)]) (kept L tlat tlon ds)"
  "list_beam_counts (collect L tlat tlon ds a) = list_beam_counts a @ map (\<lambda>dg. int (length (depth dg))) (kept L tlat tlon ds)"
  "list_ping_times (collect L tlat tlon ds a) = list_ping_times a @ map (ping_ts L) (kept L tlat tlon ds)"
  "ping_count (collect L tlat tlon ds a) = ping_count a + int (length (xpings ds))"
  by (induction L tlat tlon ds a rule: collect.induct; simp add: kept_def bump_def push_def)+


lemma rewound_fields:
  "remaining (rewound f) = datagrams f" "closed (rewound f) = False"
  "reads (rewound f) = 0" "contents (rewound f) = f"
  by (simp_all add: rewound_def rewind_def loadnavigation_def allreader_def)

lemma read_unfold:
  "fs filename = Some f \<Longrightarrow> navigation f \<noteq> [] \<Longrightarrow>
   read_em122_wgs84 L fs filename =
     (case stream_loop L (interp_lat L (navigation f)) (interp_lon L (navigation f))
             (rewound f) init_acc of
        (Inl e, r) \<Rightarrow> (Raised e, Some r)
      | (Inr a, r) \<Rightarrow>
          if ping_count a = 0 then (NoDataset NoValidDataError, Some (close r))
          else (case flatten a of
                  Inl e \<Rightarrow> (Raised e, Some (close r))
                | Inr d \<Rightarrow> (Dataset d, Some (close r))))"
  by (simp add: read_em122_wgs84_def rewound_def loadnavigation_def allreader_def Let_def split: prod.splits sum.splits)

lemma read_empty_navigation:
  "fs filename = Some f \<Longrightarrow> navigation f = [] \<Longrightarrow>
   read_em122_wgs84 L fs filename =
     (NoDataset EmptyNavigationError,
      Some \<lparr>contents = f, remaining = [], reads = 0, closed = True\<rparr>)"
  by (simp add: read_em122_wgs84_def loadnavigation_def allreader_def close_def)

lemma read_not_found:
  "fs filename = None \<Longrightarrow> read_em122_wgs84 L fs filename = (NoDataset FileNotFound, None)"
  by (simp add: read_em122_wgs84_def)

lemma read_streaming_raises:
  assumes "fs filename = Some f" "navigation f \<noteq> []"
    "\<not> (Damaged \<notin> set (datagrams f) \<and> (\<forall>dg\<in>set (processed L f). ping_ok L dg))"
  shows "\<exists>e r. read_em122_wgs84 L fs filename = (Raised e, Some r) \<and> \<not> closed r"
proof -
  let ?res = "stream_loop L (interp_lat L (navigation f)) (interp_lon L (navigation f)) (rewound f) init_acc"
  from stream_loop_bad [of "rewound f" "datagrams f" L _ _ init_acc] assms(3)
  have "isl (fst ?res)" "\<not> closed (snd ?res)"
    by (simp_all add: processed_def rewound_fields)
  then obtain e r where "?res = (Inl e, r)" "\<not> closed r"
    by (cases ?res; cases "fst ?res") auto
  then show ?thesis
    using assms(1,2) by (simp add: read_unfold [of fs filename f L])
qed

lemma read_streamed:
  assumes "fs filename = Some f" "navigation f \<noteq> []" "\<forall>dg\<in>set (processed L f). ping_ok L dg"
    "Damaged \<notin> set (datagrams f)"
  shows "read_em122_wgs84 L fs filename =
     (let a = collect L (interp_lat L (navigation f)) (interp_lon L (navigation f)) (datagrams f) init_acc;
          r = \<lparr>contents = f, remaining = [], reads = length (datagrams f), closed = True\<rparr>
      in if ping_count a = 0 then (NoDataset NoValidDataError, Some r)
         else (case flatten a of
                 Inl e \<Rightarrow> (Raised e, Some r)
               | Inr d \<Rightarrow> (Dataset d, Some r)))"
proof -
  have r: "close ((rewound f)\<lparr>remaining := [], reads := length (datagrams f)\<rparr>)
      = \<lparr>contents = f, remaining = [], reads = length (datagrams f), closed = True\<rparr>"
    by (simp add: rewound_def rewind_def loadnavigation_def allreader_def close_def)
  from stream_loop_ok [of "rewound f" "datagrams f" L _ _ init_acc] assms(3,4)
  show ?thesis
    using assms(1,2) by (simp add: read_unfold [of fs filename f L] processed_def rewound_fields r Let_def split: sum.splits)
qed

lemma flatten_collect:
  "flatten (collect L tlat tlon ds init_acc) =
     (if kept L tlat tlon ds = [] then Inl ValueError
      else Inr \<lparr>lat = concat (map (\<lambda>dg. map (\<lambda>i. snd (beam_pos L tlat tlon dg i)) [0 ..< length (depth dg)]) (kept L tlat tlon ds)),
                lon = concat (map (\<lambda>dg. map (\<lambda>i. fst (beam_pos L tlat tlon dg i)) [0 ..< length (depth dg)]) (kept L tlat tlon ds)),
                z = concat (map depth (kept L tlat tlon ds)),
                bs = concat (map reflectivity (kept L tlat tlon ds)),
                ang = concat (map (angs_of L) (kept L tlat tlon ds)),
                ping_counts = map (\<lambda>dg. int (length (depth dg))) (kept L tlat tlon ds),
                ping_starts = 0 # butlast (cumsum (map (\<lambda>dg. int (length (depth dg))) (kept L tlat tlon ds))),
                ping_times = map (ping_ts L) (kept L tlat tlon ds)\<rparr>)"
  by (simp add: flatten_def collect_fields concatenate_def init_acc_def Let_def)


lemma ping_count_collect_init:
  "ping_count (collect L tlat tlon ds init_acc) = int (length (xpings ds))"
  by (simp add: collect_fields init_acc_def)

lemma kept_subset: "set (kept L tlat tlon ds) \<subseteq> set (xpings ds)"
  by (auto simp: kept_def)

lemma kept_nonempty_xpings: "kept L tlat tlon ds \<noteq> [] \<Longrightarrow> xpings ds \<noteq> []"
  by (auto simp: kept_def)

lemma read_DatasetD:
  assumes res: "read_em122_wgs84 L fs filename = (Dataset d, ro)" and f: "fs filename = Some f"
  shows "navigation f \<noteq> []"
    and "\<forall>dg\<in>set (processed L f). ping_ok L dg"
    and "processed L f \<noteq> []"
    and "flatten (collect L (interp_lat L (navigation f)) (interp_lon L (navigation f))
            (datagrams f) init_acc) = Inr d"
    and "ro = Some \<lparr>contents = f, remaining = [], reads = length (datagrams f), closed = True\<rparr>"
    and "Damaged \<notin> set (datagrams f)"
proof -
  show nav: "navigation f \<noteq> []"
    using res f read_empty_navigation [of fs filename f L] by auto
  have both: "Damaged \<notin> set (datagrams f) \<and> (\<forall>dg\<in>set (processed L f). ping_ok L dg)"
    using res f nav read_streaming_raises [of fs filename f L] by auto
  then show ok: "\<forall>dg\<in>set (processed L f). ping_ok L dg"
    and dec: "Damaged \<notin> set (datagrams f)" by simp_all
  let ?a = "collect L (interp_lat L (navigation f)) (interp_lon L (navigation f)) (datagrams f) init_acc"
  from res f nav ok dec read_streamed [of fs filename f L]
  have *: "ping_count ?a \<noteq> 0 \<and> flatten ?a = Inr d
      \<and> ro = Some \<lparr>contents = f, remaining = [], reads = length (datagrams f), closed = True\<rparr>"
    by (auto simp: Let_def split: if_splits sum.splits)
  then show "flatten ?a = Inr d"
    and "ro = Some \<lparr>contents = f, remaining = [], reads = length (datagrams f), closed = True\<rparr>"
    by simp_all
  from * show "processed L f \<noteq> []"
    by (auto simp: flatten_collect processed_def split: if_splits)
qed

lemma read_Dataset_file:
  "read_em122_wgs84 L fs filename = (Dataset d, ro) \<Longrightarrow> \<exists>f. fs filename = Some f"
  by (cases "fs filename") (simp_all add: read_not_found)

lemma dataset_fields:
  assumes "read_em122_wgs84 L fs filename = (Dataset d, ro)" "fs filename = Some f"
  shows "z d = concat (map depth (processed L f))"
    and "bs d = concat (map reflectivity (processed L f))"
    and "ang d = concat (map (angs_of L) (processed L f))"
    and "lat d = concat (map (\<lambda>dg. map (\<lambda>i. snd (beam_pos L (interp_lat L (navigation f))
            (interp_lon L (navigation f)) dg i)) [0 ..< length (depth dg)]) (processed L f))"
    and "lon d = concat (map (\<lambda>dg. map (\<lambda>i. fst (beam_pos L (interp_lat L (navigation f))
            (interp_lon L (navigation f)) dg i)) [0 ..< length (depth dg)]) (processed L f))"
    and "ping_counts d = map (\<lambda>dg. int (length (depth dg))) (processed L f)"
    and "ping_starts d = 0 # butlast (cumsum (map (\<lambda>dg. int (length (depth dg))) (processed L f)))"
    and "ping_times d = map (ping_ts L) (processed L f)"
  using assms read_DatasetD(3,4) [of L fs filename d ro f]
  by (auto simp: flatten_collect processed_def)

subsection \<open>Prefix sums and blocks of a concatenation\<close>

lemma length_cumsum_from: "length (cumsum_from s xs) = length xs"
  by (induction xs arbitrary: s) auto

lemma cumsum_from_nth:
  "k < length xs \<Longrightarrow> cumsum_from s xs ! k = s + sum_list (take (Suc k) xs)"
proof (induction xs arbitrary: s k)
  case Nil
  then show ?case by simp
next
  case (Cons x xs)
  then show ?case by (cases k) simp_all
qed

lemma starts_length: "xs \<noteq> [] \<Longrightarrow> length (0 # butlast (cumsum xs)) = length xs"
  by (simp add: cumsum_def length_cumsum_from)

lemma starts_nth:
  "k < length xs \<Longrightarrow> (0 # butlast (cumsum xs)) ! k = sum_list (take k xs)"
proof (cases k)
  case 0
  then show ?thesis by simp
next
  case (Suc j)
  assume "k < length xs"
  with Suc have j: "j < length xs - 1" "j < length xs" by simp_all
  then have "butlast (cumsum xs) ! j = cumsum xs ! j"
    by (simp add: nth_butlast cumsum_def length_cumsum_from)
  with j Suc show ?thesis
    by (simp add: cumsum_def cumsum_from_nth)
qed

lemma sum_list_int_length:
  "sum_list (map (\<lambda>x. int (g x)) xs) = int (sum_list (map g xs))"
  by (induction xs) auto

lemma concat_nth_block:
  "k < length xss \<Longrightarrow> i < length (xss ! k) \<Longrightarrow>
     sum_list (map length (take k xss)) + i < length (concat xss)
     \<and> concat xss ! (sum_list (map length (take k xss)) + i) = xss ! k ! i"
proof (induction xss arbitrary: k)
  case Nil
  then show ?case by simp
next
  case (Cons xs xss)
  show ?case
  proof (cases k)
    case 0
    with Cons.prems show ?thesis by (simp add: nth_append)
  next
    case (Suc j)
    with Cons.prems have "j < length xss" "i < length (xss ! j)" by simp_all
    from Cons.IH [OF this] Suc show ?thesis
      by (simp add: nth_append add.assoc)
  qed
qed

lemma sum_list_take_Suc:
  "k < length xs \<Longrightarrow> sum_list (take (Suc k) xs) = sum_list (take k xs) + (xs ! k :: int)"
  by (simp add: take_Suc_conv_app_nth)

lemma angs_of_equal:
  "length (acrosstrackdistance dg) = length (depth dg) \<Longrightarrow>
     angs_of L dg = map2 (\<lambda>a b. degrees L (arctan2 L a b)) (acrosstrackdistance dg) (depth dg)"
  by (simp add: angs_of_def broadcast2_def zip_map_fst_snd map_zip_map split_def)

lemma angs_of_nth:
  assumes "ping_ok L dg" "i < length (depth dg)"
  shows "angs_of L dg ! i = degrees L (arctan2 L (acrosstrackdistance dg ! i) (depth dg ! i))"
proof (cases "length (acrosstrackdistance dg) = length (depth dg)")
  case True
  with assms show ?thesis by (simp add: angs_of_equal)
next
  case False
  with assms have one: "length (depth dg) = 1" "i = 0" "0 < length (acrosstrackdistance dg)"
    by (auto simp: ping_ok_def broadcast2_def split: if_splits)
  with False have "angs_of L dg
      = map (degrees L) (map (\<lambda>x. arctan2 L x (hd (depth dg))) (acrosstrackdistance dg))"
    by (simp add: angs_of_def broadcast2_def)
  with one show ?thesis
    by (cases "depth dg") (simp_all)
qed

lemma processed_subset: "set (processed L f) \<subseteq> set (xpings (datagrams f))"
  by (simp add: processed_def kept_subset)

lemma starts_are_block_offsets:
  assumes "read_em122_wgs84 L fs filename = (Dataset d, ro)" "fs filename = Some f"
    and "k < length (processed L f)"
  shows "ping_starts d ! k = int (sum_list (map (\<lambda>dg. length (depth dg)) (take k (processed L f))))"
  using assms(3)
  by (simp add: dataset_fields(7) [OF assms(1,2)] starts_nth take_map sum_list_int_length)


lemma sum_list_map_eq:
  "\<forall>x\<in>set xs. p x = (q x :: nat) \<Longrightarrow> sum_list (map p xs) = sum_list (map q xs)"
  by (induction xs) auto

lemma flat_block_nth:
  assumes len: "\<forall>dg\<in>set pp. length (g dg) = length (depth dg)"
    and k: "k < length pp" and i: "i < length (depth (pp ! k))"
  shows "sum_list (map (\<lambda>dg. length (depth dg)) (take k pp)) + i < length (concat (map g pp))
     \<and> concat (map g pp) ! (sum_list (map (\<lambda>dg. length (depth dg)) (take k pp)) + i) = g (pp ! k) ! i"
proof -
  have "\<forall>dg\<in>set (take k pp). length (g dg) = length (depth dg)"
    using len by (auto dest: in_set_takeD)
  then have off: "sum_list (map length (take k (map g pp)))
      = sum_list (map (\<lambda>dg. length (depth dg)) (take k pp))"
    by (simp add: take_map comp_def sum_list_map_eq)
  from len k i have "i < length (map g pp ! k)" by simp
  from concat_nth_block [OF _ this] k off show ?thesis by simp
qed

lemma flat_length:
  assumes "\<forall>dg\<in>set pp. length (g dg) = length (depth dg)"
  shows "length (concat (map g pp)) = sum_list (map (\<lambda>dg. length (depth dg)) pp)"
  using assms by (simp add: length_concat comp_def sum_list_map_eq)


subsection \<open>The sample files, run\<close>

lemmas run_defs = read_em122_wgs84_def allreader_def loadnavigation_def rewind_def close_def
  stream_loop.simps moredata_def readdatagram_def process_ping_def broadcast2_def init_acc_def
  flatten_def concatenate_def cumsum_def interp_lat_def interp_lon_def
  sample_libs_def disk_def sample_nav_def flat_grid_def

lemma survey_run:
  "read_em122_wgs84 sample_libs disk ''survey.all'' =
     (Dataset survey_dataset,
      Some \<lparr>contents = file_survey, remaining = [], reads = 5, closed = True\<rparr>)"
  by (simp add: run_defs file_survey_def ping_a_def ping_b_def ping_gap_def survey_dataset_def)

lemma survey_on_disk: "disk ''survey.all'' = Some file_survey"
  by (simp add: disk_def)

lemma survey_xpings: "xpings (datagrams file_survey) = [ping_a, ping_gap, ping_b]"
  by (simp add: file_survey_def)

lemma survey_equal_lengths:
  "equal_lengths ping_a" "equal_lengths ping_gap" "equal_lengths ping_b"
  by (simp_all add: equal_lengths_def ping_a_def ping_gap_def ping_b_def)

lemma gap_run:
  "read_em122_wgs84 sample_libs disk ''gap.all'' =
     (Raised ValueError,
      Some \<lparr>contents = file_gap, remaining = [], reads = 2, closed = True\<rparr>)"
  by (simp add: run_defs file_gap_def ping_gap_def)

lemma no_beams_run:
  "read_em122_wgs84 sample_libs disk ''no_beams.all'' =
     (Dataset \<lparr>lat = [], lon = [], z = [], bs = [], ang = [],
                ping_counts = [0], ping_starts = [0], ping_times = [5]\<rparr>,
      Some \<lparr>contents = file_no_beams, remaining = [], reads = 1, closed = True\<rparr>)"
  by (simp add: run_defs Let_def file_no_beams_def ping_no_beams_def)



lemma survey_processed: "processed sample_libs file_survey = [ping_a, ping_b]"
  by (simp add: processed_def kept_def skipped_def ping_ts_def interp_lat_def interp_lon_def
      sample_libs_def file_survey_def sample_nav_def ping_a_def ping_b_def ping_gap_def)

lemma survey_gap_skipped:
  "skipped sample_libs (interp_lat sample_libs (navigation file_survey))
     (interp_lon sample_libs (navigation file_survey)) ping_gap"
  by (simp add: skipped_def ping_ts_def interp_lat_def interp_lon_def sample_libs_def
      file_survey_def sample_nav_def ping_gap_def)

subsection \<open>The ping counter does not reach the output\<close>

lemma loop_output_simps [simp]:
  "loop_output (Inl e) = Inl e" "loop_output (Inr a) = Inr (lists_of a)"
  by (simp_all add: loop_output_def)

lemma lists_of_eq_iff:
  "lists_of a = lists_of b \<longleftrightarrow>
     list_lat a = list_lat b \<and> list_lon a = list_lon b \<and> list_z a = list_z b
     \<and> list_bs a = list_bs b \<and> list_ang a = list_ang b
     \<and> list_beam_counts a = list_beam_counts b \<and> list_ping_times a = list_ping_times b"
  by (cases a, cases b) (simp add: lists_of_def)

lemma process_ping_error_any_acc:
  "process_ping L tlat tlon dg a = Inl e \<Longrightarrow> process_ping L tlat tlon dg b = Inl e"
  by (auto simp: process_ping_def Let_def split: option.splits sum.splits prod.splits)


lemma process_ping_lists:
  assumes eq: "lists_of a = lists_of b"
  shows "loop_output (process_ping L tlat tlon dg a)
       = loop_output (process_ping L tlat tlon dg b)"
proof (cases "skipped L tlat tlon dg")
  case True
  with eq show ?thesis
    by (simp add: process_ping_skipped lists_of_eq_iff bump_def)
next
  case False
  show ?thesis
  proof (cases "ping_ok L dg")
    case True
    with False eq show ?thesis
      by (simp add: process_ping_ok lists_of_eq_iff bump_def push_def)
  next
    case bad: False
    from process_ping_bad [OF False bad, of a] obtain e
      where e: "process_ping L tlat tlon dg a = Inl e"
      by (cases "process_ping L tlat tlon dg a") auto
    from process_ping_error_any_acc [OF e, of b] e show ?thesis by simp
  qed
qed

lemma xpings_append: "xpings (ds @ es) = xpings ds @ xpings es"
  by (induction ds rule: xpings.induct) simp_all

lemma kept_without_skipped:
  "skipped L tlat tlon dg \<Longrightarrow>
     kept L tlat tlon (pre @ X dg # post) = kept L tlat tlon (pre @ post)"
  by (simp add: kept_def xpings_append)

lemma stream_loop_lists:
  "remaining r = ds \<Longrightarrow> remaining r' = ds \<Longrightarrow> lists_of a = lists_of b \<Longrightarrow>
     loop_output (fst (stream_loop L tlat tlon r a))
       = loop_output (fst (stream_loop L tlat tlon r' b))"
proof (induction ds arbitrary: r r' a b)
  case Nil
  then show ?case
    by (subst (1 2) stream_loop.simps) (simp add: moredata_def)
next
  case (Cons x ds)
  have rd: "moredata r" "readdatagram r = (x, r\<lparr>remaining := ds, reads := reads r + 1\<rparr>)"
    "moredata r'" "readdatagram r' = (x, r'\<lparr>remaining := ds, reads := reads r' + 1\<rparr>)"
    using Cons.prems(1,2) by (simp_all add: moredata_def readdatagram_def)
  show ?case
  proof (cases x)
    case Damaged
    show ?thesis
      by (subst (1 2) stream_loop.simps) (simp add: rd Damaged)
  next
    case (Other c)
    from Cons.IH [of "r\<lparr>remaining := ds, reads := reads r + 1\<rparr>"
        "r'\<lparr>remaining := ds, reads := reads r' + 1\<rparr>" a b] Cons.prems(3)
    show ?thesis
      by (subst (1 2) stream_loop.simps) (simp add: rd Other)
  next
    case (X dg)
    from process_ping_lists [OF Cons.prems(3), of L tlat tlon dg]
    consider e where "process_ping L tlat tlon dg a = Inl e" "process_ping L tlat tlon dg b = Inl e"
      | a' b' where "process_ping L tlat tlon dg a = Inr a'" "process_ping L tlat tlon dg b = Inr b'"
          "lists_of a' = lists_of b'"
      by (cases "process_ping L tlat tlon dg a"; cases "process_ping L tlat tlon dg b") auto
    then show ?thesis
    proof cases
      case 1
      then show ?thesis
        by (subst (1 2) stream_loop.simps) (simp add: rd X)
    next
      case 2
      from Cons.IH [of "r\<lparr>remaining := ds, reads := reads r + 1\<rparr>"
          "r'\<lparr>remaining := ds, reads := reads r' + 1\<rparr>" a' b'] 2
      show ?thesis
        by (subst (1 2) stream_loop.simps) (simp add: rd X)
    qed
  qed
qed

lemma stream_loop_skip:
  assumes "remaining r = X dg # post" "skipped L tlat tlon dg"
  shows "stream_loop L tlat tlon r a
       = stream_loop L tlat tlon (r\<lparr>remaining := post, reads := reads r + 1\<rparr>) (bump a)"
  using assms
  by (subst stream_loop.simps) (simp add: moredata_def readdatagram_def process_ping_skipped)

lemma skipped_same_timestamp:
  "skipped L tlat tlon dg \<Longrightarrow> ping_ts L dg' = ping_ts L dg \<Longrightarrow> skipped L tlat tlon dg'"
  by (simp add: skipped_def)

subsection \<open>No ping processed\<close>

lemma read_no_depth_records:
  assumes "fs filename = Some f" "navigation f \<noteq> []" "xpings (datagrams f) = []"
    and dec: "Damaged \<notin> set (datagrams f)"
  shows "read_em122_wgs84 L fs filename =
     (NoDataset NoValidDataError,
      Some \<lparr>contents = f, remaining = [], reads = length (datagrams f), closed = True\<rparr>)"
proof -
  from assms(3) have "processed L f = []" by (simp add: processed_def kept_def)
  then have "\<forall>dg\<in>set (processed L f). ping_ok L dg" by simp
  from read_streamed [of fs filename f L, OF assms(1,2) this dec] assms(3)
  show ?thesis by (simp add: ping_count_collect_init Let_def)
qed

lemma read_all_pings_skipped:
  assumes "fs filename = Some f" "navigation f \<noteq> []" "xpings (datagrams f) \<noteq> []"
    and "processed L f = []" and dec: "Damaged \<notin> set (datagrams f)"
  shows "read_em122_wgs84 L fs filename =
     (Raised ValueError,
      Some \<lparr>contents = f, remaining = [], reads = length (datagrams f), closed = True\<rparr>)"
proof -
  from assms(4) have ok: "\<forall>dg\<in>set (processed L f). ping_ok L dg" by simp
  from assms(4) have "kept L (interp_lat L (navigation f)) (interp_lon L (navigation f))
      (datagrams f) = []"
    by (simp add: processed_def)
  with read_streamed [of fs filename f L, OF assms(1,2) ok dec] assms(3)
  show ?thesis by (simp add: ping_count_collect_init flatten_collect Let_def)
qed

subsection \<open>Blocks of the flat arrays\<close>

lemma flat_blocks_equal_lengths:
  assumes res: "read_em122_wgs84 L fs filename = (Dataset d, ro)"
    and f: "fs filename = Some f"
    and eq: "\<forall>dg\<in>set (xpings (datagrams f)). equal_lengths dg"
  shows "ping_times d = map (ping_ts L) (processed L f)
     \<and> length (z d) = sum_list (map (\<lambda>dg. length (depth dg)) (processed L f))
     \<and> (\<forall>k<length (processed L f). \<forall>i<length (depth (processed L f ! k)).
          nat (ping_starts d ! k)
            = sum_list (map (\<lambda>dg. length (depth dg)) (take k (processed L f)))
          \<and> nat (ping_starts d ! k) + i < length (z d)
          \<and> flat_at d (nat (ping_starts d ! k) + i)
            = beam_values L (interp_lat L (navigation f)) (interp_lon L (navigation f))
                (processed L f ! k) i)"
proof (intro conjI allI impI)
  let ?pp = "processed L f"
  let ?tlat = "interp_lat L (navigation f)" and ?tlon = "interp_lon L (navigation f)"
  note D = dataset_fields [OF res f]
  have wf: "\<forall>dg\<in>set ?pp. equal_lengths dg"
    using eq processed_subset [of L f] by auto
  show "ping_times d = map (ping_ts L) ?pp" by (rule D(8))
  show "length (z d) = sum_list (map (\<lambda>dg. length (depth dg)) ?pp)"
    by (simp add: D(1) flat_length)
  fix k i assume k: "k < length ?pp" and i: "i < length (depth (?pp ! k))"
  let ?off = "sum_list (map (\<lambda>dg. length (depth dg)) (take k ?pp))"
  show off: "nat (ping_starts d ! k) = ?off"
    by (simp add: starts_are_block_offsets [OF res f k])
  from k wf have wfk: "equal_lengths (?pp ! k)" by simp
  have zz: "?off + i < length (z d) \<and> z d ! (?off + i) = depth (?pp ! k) ! i"
    unfolding D(1) by (rule flat_block_nth [OF _ k i]) simp
  have bb: "bs d ! (?off + i) = reflectivity (?pp ! k) ! i"
    unfolding D(2) using wf
    by (intro flat_block_nth [OF _ k i, THEN conjunct2]) (simp add: equal_lengths_def)
  have "ang d ! (?off + i) = angs_of L (?pp ! k) ! i"
    unfolding D(3) using wf
    by (intro flat_block_nth [OF _ k i, THEN conjunct2])
       (simp add: equal_lengths_def angs_of_equal)
  with wfk i have aa: "ang d ! (?off + i)
      = degrees L (arctan2 L (acrosstrackdistance (?pp ! k) ! i) (depth (?pp ! k) ! i))"
    by (simp add: equal_lengths_def angs_of_equal)
  have "lat d ! (?off + i)
      = map (\<lambda>i. snd (beam_pos L ?tlat ?tlon (?pp ! k) i)) [0 ..< length (depth (?pp ! k))] ! i"
    unfolding D(4) by (intro flat_block_nth [OF _ k i, THEN conjunct2]) simp
  with i have la: "lat d ! (?off + i) = snd (beam_pos L ?tlat ?tlon (?pp ! k) i)" by simp
  have "lon d ! (?off + i)
      = map (\<lambda>i. fst (beam_pos L ?tlat ?tlon (?pp ! k) i)) [0 ..< length (depth (?pp ! k))] ! i"
    unfolding D(5) by (intro flat_block_nth [OF _ k i, THEN conjunct2]) simp
  with i have lo: "lon d ! (?off + i) = fst (beam_pos L ?tlat ?tlon (?pp ! k) i)" by simp
  from zz off show "nat (ping_starts d ! k) + i < length (z d)" by simp
  from zz bb aa la lo off
  show "flat_at d (nat (ping_starts d ! k) + i) = beam_values L ?tlat ?tlon (?pp ! k) i"
    by (simp add: flat_at_def beam_values_def)
qed



lemma processed_not_skipped:
  "dg \<in> set (processed L f) \<Longrightarrow>
     \<not> skipped L (interp_lat L (navigation f)) (interp_lon L (navigation f)) dg"
  by (simp add: processed_def kept_def)

lemma survey_interp_b:
  "interp_lat sample_libs (navigation file_survey) (ping_ts sample_libs ping_b) = Some 12"
  "interp_lon sample_libs (navigation file_survey) (ping_ts sample_libs ping_b) = Some 122"
  by (simp_all add: ping_ts_def interp_lat_def interp_lon_def sample_libs_def
      file_survey_def sample_nav_def ping_b_def)

lemma survey_second_ping:
  "processed sample_libs file_survey ! 1 = ping_b"
  "1 < length (processed sample_libs file_survey)"
  "2 < length (depth (processed sample_libs file_survey ! 1))"
  by (simp_all add: survey_processed ping_b_def)

lemma survey_second_start:
  "nat (ping_starts survey_dataset ! 1) + 2 = 4"
  by (simp add: survey_dataset_def)

lemma angs_of_covers_beams:
  assumes "ping_ok L dg"
  shows "length (depth dg) \<le> length (angs_of L dg)"
proof (cases "length (acrosstrackdistance dg) = length (depth dg)")
  case True
  then show ?thesis by (simp add: angs_of_equal)
next
  case False
  with assms show ?thesis
    by (auto simp: ping_ok_def angs_of_def broadcast2_def split: if_splits)
qed

section \<open>The claims\<close>

text \<open>
  C2. In every returned dataset, provided the four per-beam arrays of each depth datagram
  of the file have equal length: the five flat arrays have the same length, which is the
  sum of \<open>ping_counts\<close>; \<open>ping_counts\<close>, \<open>ping_starts\<close> and \<open>ping_times\<close> have the same
  number of entries; \<open>ping_starts\<close> begins with 0 and each later entry is the previous
  one plus the previous beam count. Counts are Python integers here: a count is the
  length of one datagram's depth list and the sum is the length of an array in memory, so
  the \<^verbatim>\<open>int32\<close> conversion and the platform-integer \<^verbatim>\<open>cumsum\<close> are taken not to overflow.
\<close>

theorem flat_lengths_and_ping_offsets:
  assumes res: "read_em122_wgs84 L fs filename = (Dataset d, ro)"
    and f: "fs filename = Some f"
    and eq: "\<forall>dg\<in>set (xpings (datagrams f)). equal_lengths dg"
  shows "int (length (lat d)) = sum_list (ping_counts d)
     \<and> length (lon d) = length (lat d) \<and> length (z d) = length (lat d)
     \<and> length (bs d) = length (lat d) \<and> length (ang d) = length (lat d)
     \<and> length (ping_starts d) = length (ping_counts d)
     \<and> length (ping_times d) = length (ping_counts d)
     \<and> ping_starts d ! 0 = 0
     \<and> (\<forall>k. Suc k < length (ping_counts d) \<longrightarrow>
           ping_starts d ! Suc k = ping_starts d ! k + ping_counts d ! k)"
proof -
  let ?pp = "processed L f"
  let ?n = "sum_list (map (\<lambda>dg. length (depth dg)) ?pp)"
  note D = dataset_fields [OF res f]
  have wf: "\<forall>dg\<in>set ?pp. equal_lengths dg"
    using eq processed_subset [of L f] by auto
  have "length (lat d) = ?n" by (simp add: D(4) flat_length)
  moreover have "length (lon d) = ?n" by (simp add: D(5) flat_length)
  moreover have "length (z d) = ?n" by (simp add: D(1) flat_length)
  moreover have "length (bs d) = ?n"
    using wf by (simp add: D(2) flat_length equal_lengths_def)
  moreover have "length (ang d) = ?n"
    using wf by (simp add: D(3) flat_length equal_lengths_def angs_of_equal)
  moreover have "sum_list (ping_counts d) = int ?n"
    by (simp add: D(6) sum_list_int_length)
  moreover have "length (ping_starts d) = length (ping_counts d)"
    using read_DatasetD(3) [OF res f] by (simp add: D(6,7) cumsum_def length_cumsum_from)
  moreover have "length (ping_times d) = length (ping_counts d)"
    by (simp add: D(6,8))
  moreover have "ping_starts d ! 0 = 0" by (simp add: D(7))
  moreover have "\<forall>k. Suc k < length (ping_counts d) \<longrightarrow>
           ping_starts d ! Suc k = ping_starts d ! k + ping_counts d ! k"
  proof (intro allI impI)
    fix k assume k: "Suc k < length (ping_counts d)"
    then have "Suc k < length (map (\<lambda>dg. int (length (depth dg))) ?pp)"
      "k < length (map (\<lambda>dg. int (length (depth dg))) ?pp)" by (simp_all add: D(6))
    then show "ping_starts d ! Suc k = ping_starts d ! k + ping_counts d ! k"
      unfolding D(6,7) by (simp only: starts_nth sum_list_take_Suc)
  qed
  ultimately show ?thesis by simp
qed


theorem flat_lengths_and_ping_offsets_witness:
  "read_em122_wgs84 sample_libs disk ''survey.all'' =
     (Dataset survey_dataset,
      Some \<lparr>contents = file_survey, remaining = [], reads = 5, closed = True\<rparr>)
   \<and> disk ''survey.all'' = Some file_survey
   \<and> equal_lengths ping_a \<and> equal_lengths ping_gap \<and> equal_lengths ping_b
   \<and> int (length (lat survey_dataset)) = sum_list (ping_counts survey_dataset)
   \<and> length (lon survey_dataset) = length (lat survey_dataset)
   \<and> length (z survey_dataset) = length (lat survey_dataset)
   \<and> length (bs survey_dataset) = length (lat survey_dataset)
   \<and> length (ang survey_dataset) = length (lat survey_dataset)
   \<and> length (ping_starts survey_dataset) = length (ping_counts survey_dataset)
   \<and> length (ping_times survey_dataset) = length (ping_counts survey_dataset)
   \<and> ping_starts survey_dataset ! 0 = 0
   \<and> ping_starts survey_dataset ! Suc 0
       = ping_starts survey_dataset ! 0 + ping_counts survey_dataset ! 0"
proof -
  have eq: "\<forall>dg\<in>set (xpings (datagrams file_survey)). equal_lengths dg"
    by (simp add: survey_xpings survey_equal_lengths)
  have "Suc 0 < length (ping_counts survey_dataset)"
    by (simp add: survey_dataset_def)
  with flat_lengths_and_ping_offsets [OF survey_run survey_on_disk eq]
  show ?thesis
    by (simp add: survey_run survey_on_disk survey_equal_lengths)
qed

text \<open>
  C9. When the navigation list of the file is empty, the call ends with the
  empty-navigation outcome: no dataset, the reader closed, and \<^verbatim>\<open>readdatagram\<close> never
  called, so no depth record was processed and nothing was flattened.
\<close>

theorem empty_navigation_fails:
  assumes "fs filename = Some f" "navigation f = []"
  shows "read_em122_wgs84 L fs filename =
     (NoDataset EmptyNavigationError,
      Some \<lparr>contents = f, remaining = [], reads = 0, closed = True\<rparr>)"
  using assms by (rule read_empty_navigation)

theorem empty_navigation_fails_witness:
  "disk ''no_nav.all'' = Some file_no_nav \<and> navigation file_no_nav = []
   \<and> read_em122_wgs84 sample_libs disk ''no_nav.all'' =
     (NoDataset EmptyNavigationError,
      Some \<lparr>contents = file_no_nav, remaining = [], reads = 0, closed = True\<rparr>)"
proof -
  have h: "disk ''no_nav.all'' = Some file_no_nav" "navigation file_no_nav = []"
    by (simp_all add: disk_def file_no_nav_def)
  from empty_navigation_fails [of disk "''no_nav.all''" file_no_nav sample_libs, OF h] h
  show ?thesis by simp
qed

text \<open>
  C10. A returned dataset indexes at least one ping: \<open>ping_counts\<close>, \<open>ping_starts\<close> and
  \<open>ping_times\<close> each have at least one entry.
\<close>

theorem returned_dataset_indexes_a_ping:
  assumes "read_em122_wgs84 L fs filename = (Dataset d, ro)"
  shows "1 \<le> length (ping_counts d) \<and> 1 \<le> length (ping_starts d)
     \<and> 1 \<le> length (ping_times d)"
proof -
  from read_Dataset_file [OF assms] obtain f where f: "fs filename = Some f" ..
  from read_DatasetD(3) [OF assms f] have "processed L f \<noteq> []" .
  then have "0 < length (processed L f)" by simp
  then show ?thesis
    by (simp add: dataset_fields(6,7,8) [OF assms f] Suc_le_eq)
qed

theorem returned_dataset_indexes_a_ping_witness:
  "read_em122_wgs84 sample_libs disk ''survey.all'' =
     (Dataset survey_dataset,
      Some \<lparr>contents = file_survey, remaining = [], reads = 5, closed = True\<rparr>)
   \<and> 1 \<le> length (ping_counts survey_dataset) \<and> 1 \<le> length (ping_starts survey_dataset)
   \<and> 1 \<le> length (ping_times survey_dataset)"
  using returned_dataset_indexes_a_ping [OF survey_run] survey_run by simp

text \<open>
  C1. With navigation present and every ping outside its domain the call does not end
  with the no-valid-data outcome: the counter of line 72 has counted the skipped ping, the
  test of line 138 passes, and \<^verbatim>\<open>np.concatenate\<close> of the empty list raises \<^verbatim>\<open>ValueError\<close>.
  The sample file holds one position datagram and one depth datagram stamped after the
  last fix. In general (\<open>read_no_depth_records\<close>, \<open>read_all_pings_skipped\<close>): a file with
  fixes and no depth datagram gives the no-valid-data outcome, a file with fixes whose
  depth datagrams all decode and are all skipped gives the exception.
\<close>

theorem all_pings_outside_navigation_raises:
  "read_em122_wgs84 sample_libs disk ''gap.all'' =
     (Raised ValueError,
      Some \<lparr>contents = file_gap, remaining = [], reads = 2, closed = True\<rparr>)"
  by (rule gap_run)

text \<open>
  C3, as claimed, fails: a depth datagram inside the navigation domain whose beam lists are
  empty is listed in the ping index with a beam count of 0.
\<close>

theorem ping_without_beams_is_listed:
  "read_em122_wgs84 sample_libs disk ''no_beams.all'' =
     (Dataset \<lparr>lat = [], lon = [], z = [], bs = [], ang = [],
                ping_counts = [0], ping_starts = [0], ping_times = [5]\<rparr>,
      Some \<lparr>contents = file_no_beams, remaining = [], reads = 1, closed = True\<rparr>)"
  by (rule no_beams_run)

text \<open>
  C3, amended. The ping index of a returned dataset lists exactly the depth datagrams that
  passed the navigation lookup, in file order, one entry each: the beam count of an entry is
  the length of that datagram's depth list, so it is never negative and is 0 for a datagram
  without beams; a skipped ping has no entry.
\<close>

theorem ping_index_lists_unskipped_pings:
  assumes res: "read_em122_wgs84 L fs filename = (Dataset d, ro)" and f: "fs filename = Some f"
  shows "ping_counts d = map (\<lambda>dg. int (length (depth dg))) (processed L f)
     \<and> ping_times d = map (ping_ts L) (processed L f)
     \<and> length (ping_starts d) = length (processed L f)
     \<and> (\<forall>c\<in>set (ping_counts d). 0 \<le> c)"
proof -
  note D = dataset_fields [OF res f]
  have "length (ping_starts d) = length (processed L f)"
    using read_DatasetD(3) [OF res f] by (simp add: D(7) cumsum_def length_cumsum_from)
  then show ?thesis by (auto simp: D(6,8))
qed

theorem ping_index_lists_unskipped_pings_witness:
  "read_em122_wgs84 sample_libs disk ''survey.all'' =
     (Dataset survey_dataset,
      Some \<lparr>contents = file_survey, remaining = [], reads = 5, closed = True\<rparr>)
   \<and> disk ''survey.all'' = Some file_survey
   \<and> processed sample_libs file_survey = [ping_a, ping_b]
   \<and> ping_counts survey_dataset = [int (length (depth ping_a)), int (length (depth ping_b))]
   \<and> ping_times survey_dataset = [ping_ts sample_libs ping_a, ping_ts sample_libs ping_b]
   \<and> length (ping_starts survey_dataset) = 2
   \<and> 0 \<le> ping_counts survey_dataset ! 0"
proof -
  have "ping_counts survey_dataset ! 0 \<in> set (ping_counts survey_dataset)"
    by (simp add: survey_dataset_def)
  with ping_index_lists_unskipped_pings [OF survey_run survey_on_disk]
  show ?thesis
    by (simp add: survey_run survey_on_disk survey_processed)
qed

text \<open>
  C4. A depth datagram whose timestamp gets no value from either interpolant is skipped:
  processing it raises nothing and changes only the ping counter; the loop over the
  remaining records gives the same lists, or the same exception, as if the datagram had
  not been there; its timestamp is not in \<open>ping_times\<close> of a returned dataset, and that
  dataset is the one the file without the datagram yields.
\<close>

theorem skipped_ping_contributes_nothing:
  assumes f: "fs filename = Some f"
    and ds: "datagrams f = pre @ X dg # post"
    and sk: "skipped L (interp_lat L (navigation f)) (interp_lon L (navigation f)) dg"
  shows "process_ping L (interp_lat L (navigation f)) (interp_lon L (navigation f)) dg a
       = Inr (a\<lparr>ping_count := ping_count a + 1\<rparr>)
     \<and> (\<forall>r::allreader. remaining r = X dg # post \<longrightarrow>
          loop_output
            (fst (stream_loop L (interp_lat L (navigation f)) (interp_lon L (navigation f)) r a))
          = loop_output
            (fst (stream_loop L (interp_lat L (navigation f)) (interp_lon L (navigation f))
                   (r\<lparr>remaining := post\<rparr>) a)))
     \<and> (\<forall>d ro. read_em122_wgs84 L fs filename = (Dataset d, ro) \<longrightarrow>
          ping_ts L dg \<notin> set (ping_times d)
          \<and> fst (read_em122_wgs84 L (fs(filename \<mapsto> f\<lparr>datagrams := pre @ post\<rparr>)) filename)
              = Dataset d)"
proof (intro conjI allI impI)
  let ?tlat = "interp_lat L (navigation f)" and ?tlon = "interp_lon L (navigation f)"
  show "process_ping L ?tlat ?tlon dg a = Inr (a\<lparr>ping_count := ping_count a + 1\<rparr>)"
    using sk by (simp add: process_ping_skipped bump_def)
  {
    fix r :: allreader assume r: "remaining r = X dg # post"
    have "lists_of (bump a) = lists_of a" by (simp add: lists_of_def bump_def)
    from stream_loop_lists [of "r\<lparr>remaining := post, reads := reads r + 1\<rparr>" post
        "r\<lparr>remaining := post\<rparr>" "bump a" a L ?tlat ?tlon, OF _ _ this]
    show "loop_output (fst (stream_loop L ?tlat ?tlon r a))
        = loop_output (fst (stream_loop L ?tlat ?tlon (r\<lparr>remaining := post\<rparr>) a))"
      by (simp add: stream_loop_skip [OF r sk])
  }
  {
    fix d ro assume res: "read_em122_wgs84 L fs filename = (Dataset d, ro)"
    note D = dataset_fields [OF res f]
    show "ping_ts L dg \<notin> set (ping_times d)"
    proof
      assume "ping_ts L dg \<in> set (ping_times d)"
      then obtain dg' where "dg' \<in> set (processed L f)" "ping_ts L dg' = ping_ts L dg"
        by (auto simp: D(8))
      with sk skipped_same_timestamp [of L ?tlat ?tlon dg dg'] show False
        by (simp add: processed_def kept_def)
    qed
    let ?f' = "f\<lparr>datagrams := pre @ post\<rparr>"
    let ?fs' = "fs(filename \<mapsto> ?f')"
    have same: "processed L ?f' = processed L f"
      using sk by (simp add: processed_def ds kept_without_skipped)
    have f': "?fs' filename = Some ?f'" by simp
    have nav: "navigation ?f' \<noteq> []" using read_DatasetD(1) [OF res f] by simp
    have ok: "\<forall>dg\<in>set (processed L ?f'). ping_ok L dg"
      using read_DatasetD(2) [OF res f] same by simp
    have ne: "kept L ?tlat ?tlon (pre @ post) \<noteq> []"
      using read_DatasetD(3) [OF res f] same by (simp add: processed_def)
    have "flatten (collect L ?tlat ?tlon (pre @ post) init_acc)
        = flatten (collect L ?tlat ?tlon (pre @ X dg # post) init_acc)"
      by (simp only: flatten_collect kept_without_skipped [OF sk])
    with read_DatasetD(4) [OF res f]
    have fl: "flatten (collect L ?tlat ?tlon (pre @ post) init_acc) = Inr d"
      by (simp add: ds)
    from ne have "ping_count (collect L ?tlat ?tlon (pre @ post) init_acc) \<noteq> 0"
      by (simp add: ping_count_collect_init kept_nonempty_xpings)
    have dec: "Damaged \<notin> set (datagrams ?f')"
      using read_DatasetD(6) [OF res f] by (simp add: ds)
    from this have "Damaged \<notin> set (pre @ post)" by simp
    with ne have "ping_count (collect L ?tlat ?tlon (pre @ post) init_acc) \<noteq> 0"
      by (simp add: ping_count_collect_init kept_nonempty_xpings)
    with read_streamed [of ?fs' filename ?f' L, OF f' nav ok dec] fl
    show "fst (read_em122_wgs84 L ?fs' filename) = Dataset d"
      by (simp add: Let_def)
  }
qed

theorem skipped_ping_contributes_nothing_witness:
  "disk ''survey.all'' = Some file_survey
   \<and> datagrams file_survey = [Other CHR ''I'', X ping_a, Other CHR ''P''] @ X ping_gap # [X ping_b]
   \<and> skipped sample_libs (interp_lat sample_libs (navigation file_survey))
        (interp_lon sample_libs (navigation file_survey)) ping_gap
   \<and> process_ping sample_libs (interp_lat sample_libs (navigation file_survey))
        (interp_lon sample_libs (navigation file_survey)) ping_gap init_acc
       = Inr (init_acc\<lparr>ping_count := ping_count init_acc + 1\<rparr>)
   \<and> ping_ts sample_libs ping_gap \<notin> set (ping_times survey_dataset)
   \<and> fst (read_em122_wgs84 sample_libs
            (disk(''survey.all'' \<mapsto>
               file_survey\<lparr>datagrams := [Other CHR ''I'', X ping_a, Other CHR ''P''] @ [X ping_b]\<rparr>))
            ''survey.all'') = Dataset survey_dataset"
proof -
  have ds: "datagrams file_survey
      = [Other CHR ''I'', X ping_a, Other CHR ''P''] @ X ping_gap # [X ping_b]"
    by (simp add: file_survey_def)
  note T = skipped_ping_contributes_nothing
    [where fs = disk and filename = "''survey.all''" and f = file_survey and L = sample_libs
       and pre = "[Other CHR ''I'', X ping_a, Other CHR ''P'']" and dg = ping_gap
       and post = "[X ping_b]" and a = init_acc,
     OF survey_on_disk ds survey_gap_skipped]
  from T have c1: "process_ping sample_libs (interp_lat sample_libs (navigation file_survey))
        (interp_lon sample_libs (navigation file_survey)) ping_gap init_acc
       = Inr (init_acc\<lparr>ping_count := ping_count init_acc + 1\<rparr>)"
    by (rule conjunct1)
  from T survey_run have c3: "ping_ts sample_libs ping_gap \<notin> set (ping_times survey_dataset)
     \<and> fst (read_em122_wgs84 sample_libs
            (disk(''survey.all'' \<mapsto>
               file_survey\<lparr>datagrams := [Other CHR ''I'', X ping_a, Other CHR ''P''] @ [X ping_b]\<rparr>))
            ''survey.all'') = Dataset survey_dataset"
    by blast
  from survey_on_disk ds survey_gap_skipped c1 c3 show ?thesis by blast
qed




text \<open>
  C5. In every returned dataset of a file whose depth datagrams keep the PingRecord
  invariant of the data model (the four per-beam arrays of a datagram have one length),
  the flat arrays are the concatenation, in file order of the pings that were not skipped,
  of the arrays of those pings, beam order kept: \<open>ping_starts ! k\<close> is the number of beams
  of the pings before ping \<open>k\<close>, and the five values of beam \<open>i\<close> of ping \<open>k\<close> are at index
  \<open>ping_starts ! k + i\<close> of the five arrays.
\<close>

theorem flat_arrays_follow_ping_order:
  assumes res: "read_em122_wgs84 L fs filename = (Dataset d, ro)"
    and f: "fs filename = Some f"
    and eq: "\<forall>dg\<in>set (xpings (datagrams f)). equal_lengths dg"
  shows "z d = concat (map depth (processed L f))
     \<and> bs d = concat (map reflectivity (processed L f))
     \<and> ang d = concat (map (angs_of L) (processed L f))
     \<and> ping_times d = map (ping_ts L) (processed L f)
     \<and> length (z d) = sum_list (map (\<lambda>dg. length (depth dg)) (processed L f))
     \<and> (\<forall>k<length (processed L f). \<forall>i<length (depth (processed L f ! k)).
          nat (ping_starts d ! k)
            = sum_list (map (\<lambda>dg. length (depth dg)) (take k (processed L f)))
          \<and> nat (ping_starts d ! k) + i < length (z d)
          \<and> flat_at d (nat (ping_starts d ! k) + i)
            = beam_values L (interp_lat L (navigation f)) (interp_lon L (navigation f))
                (processed L f ! k) i)"
proof -
  note D = dataset_fields [OF res f]
  from flat_blocks_equal_lengths [OF res f eq] D(1,2,3) show ?thesis by blast
qed

theorem flat_arrays_follow_ping_order_witness:
  "read_em122_wgs84 sample_libs disk ''survey.all'' =
     (Dataset survey_dataset,
      Some \<lparr>contents = file_survey, remaining = [], reads = 5, closed = True\<rparr>)
   \<and> disk ''survey.all'' = Some file_survey
   \<and> equal_lengths ping_a \<and> equal_lengths ping_gap \<and> equal_lengths ping_b
   \<and> processed sample_libs file_survey = [ping_a, ping_b]
   \<and> z survey_dataset = concat (map depth [ping_a, ping_b])
   \<and> bs survey_dataset = concat (map reflectivity [ping_a, ping_b])
   \<and> ping_times survey_dataset = map (ping_ts sample_libs) [ping_a, ping_b]
   \<and> nat (ping_starts survey_dataset ! 1) + 2 = 4
   \<and> flat_at survey_dataset 4
       = beam_values sample_libs (interp_lat sample_libs (navigation file_survey))
           (interp_lon sample_libs (navigation file_survey)) ping_b 2
   \<and> flat_at survey_dataset 4 = (13, 127, 92, -27, deg (atan2 5 92))"
proof -
  have eq: "\<forall>dg\<in>set (xpings (datagrams file_survey)). equal_lengths dg"
    by (simp add: survey_xpings survey_equal_lengths)
  note T = flat_arrays_follow_ping_order [OF survey_run survey_on_disk eq]
  from T have lists: "z survey_dataset = concat (map depth [ping_a, ping_b])"
    "bs survey_dataset = concat (map reflectivity [ping_a, ping_b])"
    "ping_times survey_dataset = map (ping_ts sample_libs) [ping_a, ping_b]"
    unfolding survey_processed by blast+
  from T survey_second_ping(2,3)
  have "flat_at survey_dataset (nat (ping_starts survey_dataset ! 1) + 2)
      = beam_values sample_libs (interp_lat sample_libs (navigation file_survey))
          (interp_lon sample_libs (navigation file_survey))
          (processed sample_libs file_survey ! 1) 2"
    by blast
  then have at: "flat_at survey_dataset 4
      = beam_values sample_libs (interp_lat sample_libs (navigation file_survey))
          (interp_lon sample_libs (navigation file_survey)) ping_b 2"
    unfolding survey_second_ping(1) survey_second_start .
  have v: "flat_at survey_dataset 4 = (13, 127, 92, -27, deg (atan2 5 92))"
    by (simp add: flat_at_def survey_dataset_def)
  from survey_run survey_on_disk survey_equal_lengths survey_processed lists
    survey_second_start at v
  show ?thesis by blast
qed

text \<open>
  C6. For every ping of a returned dataset and every beam \<open>i\<close> of it, the angle array
  computed at line 98 holds \<open>degrees (arctan2 across\<^sub>i depth\<^sub>i)\<close> at \<open>i\<close>, from the
  vertical depth; the dataset's angle array is the concatenation of these arrays, nothing
  changed; where across-track and depth lists have equal length the value is at index
  \<open>ping_starts ! k + i\<close>.
\<close>

theorem beam_angle_from_vertical_depth:
  assumes res: "read_em122_wgs84 L fs filename = (Dataset d, ro)"
    and f: "fs filename = Some f"
  shows "ang d = concat (map (angs_of L) (processed L f))
     \<and> (\<forall>k<length (processed L f). \<forall>i<length (depth (processed L f ! k)).
          i < length (angs_of L (processed L f ! k))
          \<and> angs_of L (processed L f ! k) ! i
              = degrees L (arctan2 L (acrosstrackdistance (processed L f ! k) ! i)
                             (depth (processed L f ! k) ! i)))
     \<and> ((\<forall>dg\<in>set (xpings (datagrams f)).
            length (acrosstrackdistance dg) = length (depth dg)) \<longrightarrow>
          (\<forall>k<length (processed L f). \<forall>i<length (depth (processed L f ! k)).
             ang d ! (nat (ping_starts d ! k) + i)
               = degrees L (arctan2 L (acrosstrackdistance (processed L f ! k) ! i)
                              (depth (processed L f ! k) ! i))))"
proof (intro conjI allI impI)
  let ?pp = "processed L f"
  note D = dataset_fields [OF res f]
  show "ang d = concat (map (angs_of L) ?pp)" by (rule D(3))
  {
    fix k i assume k: "k < length ?pp" and i: "i < length (depth (?pp ! k))"
    from k read_DatasetD(2) [OF res f] have ok: "ping_ok L (?pp ! k)" by simp
    from angs_of_covers_beams [OF ok] i show "i < length (angs_of L (?pp ! k))" by simp
    from angs_of_nth [OF ok i]
    show "angs_of L (?pp ! k) ! i
        = degrees L (arctan2 L (acrosstrackdistance (?pp ! k) ! i) (depth (?pp ! k) ! i))" .
  }
  {
    fix k i
    assume eq: "\<forall>dg\<in>set (xpings (datagrams f)).
        length (acrosstrackdistance dg) = length (depth dg)"
      and k: "k < length ?pp" and i: "i < length (depth (?pp ! k))"
    let ?off = "sum_list (map (\<lambda>dg. length (depth dg)) (take k ?pp))"
    from eq processed_subset [of L f]
    have len: "\<forall>dg\<in>set ?pp. length (angs_of L dg) = length (depth dg)"
      by (auto simp: angs_of_equal)
    from k read_DatasetD(2) [OF res f] have ok: "ping_ok L (?pp ! k)" by simp
    have off: "nat (ping_starts d ! k) = ?off"
      by (simp add: starts_are_block_offsets [OF res f k])
    have "ang d ! (?off + i) = angs_of L (?pp ! k) ! i"
      unfolding D(3) by (rule flat_block_nth [OF len k i, THEN conjunct2])
    with off angs_of_nth [OF ok i]
    show "ang d ! (nat (ping_starts d ! k) + i)
        = degrees L (arctan2 L (acrosstrackdistance (?pp ! k) ! i) (depth (?pp ! k) ! i))"
      by simp
  }
qed

theorem beam_angle_from_vertical_depth_witness:
  "read_em122_wgs84 sample_libs disk ''survey.all'' =
     (Dataset survey_dataset,
      Some \<lparr>contents = file_survey, remaining = [], reads = 5, closed = True\<rparr>)
   \<and> disk ''survey.all'' = Some file_survey
   \<and> length (acrosstrackdistance ping_a) = length (depth ping_a)
   \<and> length (acrosstrackdistance ping_gap) = length (depth ping_gap)
   \<and> length (acrosstrackdistance ping_b) = length (depth ping_b)
   \<and> processed sample_libs file_survey = [ping_a, ping_b]
   \<and> ang survey_dataset = concat (map (angs_of sample_libs) [ping_a, ping_b])
   \<and> angs_of sample_libs ping_b ! 2
       = degrees sample_libs (arctan2 sample_libs (acrosstrackdistance ping_b ! 2) (depth ping_b ! 2))
   \<and> ang survey_dataset ! 4
       = degrees sample_libs (arctan2 sample_libs (acrosstrackdistance ping_b ! 2) (depth ping_b ! 2))
   \<and> ang survey_dataset ! 4 = deg (atan2 5 92)"
proof -
  have shape: "length (acrosstrackdistance ping_a) = length (depth ping_a)"
    "length (acrosstrackdistance ping_gap) = length (depth ping_gap)"
    "length (acrosstrackdistance ping_b) = length (depth ping_b)"
    by (simp_all add: ping_a_def ping_gap_def ping_b_def)
  then have eq: "\<forall>dg\<in>set (xpings (datagrams file_survey)).
      length (acrosstrackdistance dg) = length (depth dg)"
    by (simp add: survey_xpings)
  note T = beam_angle_from_vertical_depth [OF survey_run survey_on_disk]
  from T have cat: "ang survey_dataset = concat (map (angs_of sample_libs) [ping_a, ping_b])"
    unfolding survey_processed by blast
  from T survey_second_ping(2,3)
  have "angs_of sample_libs (processed sample_libs file_survey ! 1) ! 2
      = degrees sample_libs
          (arctan2 sample_libs (acrosstrackdistance (processed sample_libs file_survey ! 1) ! 2)
             (depth (processed sample_libs file_survey ! 1) ! 2))"
    by blast
  then have em: "angs_of sample_libs ping_b ! 2
      = degrees sample_libs (arctan2 sample_libs (acrosstrackdistance ping_b ! 2) (depth ping_b ! 2))"
    unfolding survey_second_ping(1) .
  from T eq survey_second_ping(2,3)
  have "ang survey_dataset ! (nat (ping_starts survey_dataset ! 1) + 2)
      = degrees sample_libs
          (arctan2 sample_libs (acrosstrackdistance (processed sample_libs file_survey ! 1) ! 2)
             (depth (processed sample_libs file_survey ! 1) ! 2))"
    by blast
  then have at: "ang survey_dataset ! 4
      = degrees sample_libs (arctan2 sample_libs (acrosstrackdistance ping_b ! 2) (depth ping_b ! 2))"
    unfolding survey_second_ping(1) survey_second_start .
  have v: "ang survey_dataset ! 4 = deg (atan2 5 92)"
    by (simp add: survey_dataset_def)
  from survey_run survey_on_disk shape survey_processed cat em at v
  show ?thesis by blast
qed

text \<open>
  C7. For every ping of a returned dataset and every beam \<open>i\<close> of it, both interpolants
  have a value at the ping's timestamp, and the pair (longitude, latitude) at index
  \<open>ping_starts ! k + i\<close> is the result of the geodetic primitive on the interpolated
  longitude and latitude, the heading, with the across-track distance as dx and the
  along-track distance as dy.
\<close>

theorem beam_position_from_forward_primitive:
  assumes res: "read_em122_wgs84 L fs filename = (Dataset d, ro)"
    and f: "fs filename = Some f"
    and k: "k < length (processed L f)"
    and i: "i < length (depth (processed L f ! k))"
  shows "\<exists>ref_lat ref_lon.
      interp_lat L (navigation f) (ping_ts L (processed L f ! k)) = Some ref_lat
      \<and> interp_lon L (navigation f) (ping_ts L (processed L f ! k)) = Some ref_lon
      \<and> i < length (acrosstrackdistance (processed L f ! k))
      \<and> i < length (alongtrackdistance (processed L f ! k))
      \<and> nat (ping_starts d ! k) + i < length (lat d)
      \<and> length (lon d) = length (lat d)
      \<and> (lon d ! (nat (ping_starts d ! k) + i), lat d ! (nat (ping_starts d ! k) + i))
          = calculateGeographicalPositionFromBearingDxDy L ref_lon ref_lat
              (heading (processed L f ! k))
              (acrosstrackdistance (processed L f ! k) ! i)
              (alongtrackdistance (processed L f ! k) ! i)"
proof -
  let ?pp = "processed L f"
  let ?dg = "?pp ! k"
  let ?tlat = "interp_lat L (navigation f)" and ?tlon = "interp_lon L (navigation f)"
  let ?off = "sum_list (map (\<lambda>dg. length (depth dg)) (take k ?pp))"
  note D = dataset_fields [OF res f]
  from k have mem: "?dg \<in> set ?pp" by simp
  from processed_not_skipped [OF mem] obtain ref_lat ref_lon
    where ref: "?tlat (ping_ts L ?dg) = Some ref_lat" "?tlon (ping_ts L ?dg) = Some ref_lon"
    by (auto simp: skipped_def)
  from read_DatasetD(2) [OF res f] mem have "ping_ok L ?dg" by blast
  with i have inr: "i < length (acrosstrackdistance ?dg)" "i < length (alongtrackdistance ?dg)"
    by (simp_all add: ping_ok_def)
  have off: "nat (ping_starts d ! k) = ?off"
    by (simp add: starts_are_block_offsets [OF res f k])
  have la: "?off + i < length (lat d) \<and> lat d ! (?off + i)
      = map (\<lambda>i. snd (beam_pos L ?tlat ?tlon ?dg i)) [0 ..< length (depth ?dg)] ! i"
    unfolding D(4) by (intro flat_block_nth [OF _ k i]) simp
  have lo: "lon d ! (?off + i)
      = map (\<lambda>i. fst (beam_pos L ?tlat ?tlon ?dg i)) [0 ..< length (depth ?dg)] ! i"
    unfolding D(5) by (intro flat_block_nth [OF _ k i, THEN conjunct2]) simp
  have len: "length (lon d) = length (lat d)"
    by (simp add: D(4,5) flat_length)
  from la lo i have "(lon d ! (?off + i), lat d ! (?off + i)) = beam_pos L ?tlat ?tlon ?dg i"
    by simp
  with ref have "(lon d ! (?off + i), lat d ! (?off + i))
      = calculateGeographicalPositionFromBearingDxDy L ref_lon ref_lat (heading ?dg)
          (acrosstrackdistance ?dg ! i) (alongtrackdistance ?dg ! i)"
    by (simp add: beam_pos_def)
  with ref inr la len off show ?thesis by auto
qed

theorem beam_position_from_forward_primitive_witness:
  "read_em122_wgs84 sample_libs disk ''survey.all'' =
     (Dataset survey_dataset,
      Some \<lparr>contents = file_survey, remaining = [], reads = 5, closed = True\<rparr>)
   \<and> disk ''survey.all'' = Some file_survey
   \<and> processed sample_libs file_survey = [ping_a, ping_b]
   \<and> interp_lat sample_libs (navigation file_survey) (ping_ts sample_libs ping_b) = Some 12
   \<and> interp_lon sample_libs (navigation file_survey) (ping_ts sample_libs ping_b) = Some 122
   \<and> nat (ping_starts survey_dataset ! 1) + 2 = 4
   \<and> (lon survey_dataset ! 4, lat survey_dataset ! 4)
       = calculateGeographicalPositionFromBearingDxDy sample_libs 122 12 (heading ping_b)
           (acrosstrackdistance ping_b ! 2) (alongtrackdistance ping_b ! 2)
   \<and> (lon survey_dataset ! 4, lat survey_dataset ! 4) = (127, 13)"
proof -
  from beam_position_from_forward_primitive
    [OF survey_run survey_on_disk survey_second_ping(2,3)]
  obtain ref_lat ref_lon where
    "interp_lat sample_libs (navigation file_survey) (ping_ts sample_libs ping_b) = Some ref_lat"
    "interp_lon sample_libs (navigation file_survey) (ping_ts sample_libs ping_b) = Some ref_lon"
    "(lon survey_dataset ! 4, lat survey_dataset ! 4)
       = calculateGeographicalPositionFromBearingDxDy sample_libs ref_lon ref_lat (heading ping_b)
           (acrosstrackdistance ping_b ! 2) (alongtrackdistance ping_b ! 2)"
    unfolding survey_second_ping(1) survey_second_start by blast
  then have at: "(lon survey_dataset ! 4, lat survey_dataset ! 4)
       = calculateGeographicalPositionFromBearingDxDy sample_libs 122 12 (heading ping_b)
           (acrosstrackdistance ping_b ! 2) (alongtrackdistance ping_b ! 2)"
    by (simp add: survey_interp_b)
  have v: "(lon survey_dataset ! 4, lat survey_dataset ! 4) = (127, 13)"
    by (simp add: survey_dataset_def)
  from survey_run survey_on_disk survey_processed survey_interp_b survey_second_start at v
  show ?thesis by blast
qed

end
